theory Spec2Isabelle
  imports Complex_Main
begin

section \<open>Conventions of the embedding\<close>

text \<open>
  The pipeline is Python. Timestamps are Python integers and are modelled as \<open>int\<close>.
  Prices and basis-point values are Python floats; they are modelled as \<open>real\<close>, so
  the rounding of float arithmetic, infinities and NaN are outside the model, while the
  comparisons, the division by zero (which raises in Python) and the conversion of an
  integer to a float (which rounds, and raises on overflow) are modelled as the code
  performs them.
  A raised exception is a value \<open>Inl e\<close> of a sum type, a normal result is \<open>Inr x\<close>.
\<close>

datatype py_error =
  ZeroDivisionError | TypeError | ValueError | FileNotFoundError | OverflowError

section \<open>scripts/detect\_events.py: the as-of merge and the spread metric\<close>

record tick =
  ts_ms :: int
  venue :: string
  mid :: real

record metric_row =
  row_ts_ms :: int
  row_min_venue :: string
  row_max_venue :: string
  row_min_mid :: real
  row_max_mid :: real
  row_spread_bps :: real

text \<open>
  \<open>last_mid\<close> is a Python dict: insertion ordered, and an assignment to a key that is
  already present keeps the key's position. It is an association list with distinct keys;
  \<open>dict_set\<close> is the assignment \<^verbatim>\<open>d[k] = v\<close>.
\<close>

fun dict_set :: "('k \<times> 'v) list \<Rightarrow> 'k \<Rightarrow> 'v \<Rightarrow> ('k \<times> 'v) list" where
  "dict_set [] k v = [(k, v)]"
| "dict_set ((k', v') # kvs) k v =
     (if k' = k then (k, v) # kvs else (k', v') # dict_set kvs k v)"

text \<open>
  \<^verbatim>\<open>min(items, key=lambda x: x[1])\<close> and \<^verbatim>\<open>max(items, key=lambda x: x[1])\<close>:
  the builtins keep the first item whose key is minimal (maximal), and raise
  \<open>ValueError\<close> on an empty sequence.
\<close>

definition min_by_mid :: "('k \<times> real) list \<Rightarrow> py_error + ('k \<times> real)" where
  "min_by_mid items =
     (case items of
        [] \<Rightarrow> Inl ValueError
      | x # xs \<Rightarrow> Inr (foldl (\<lambda>best it. if snd it < snd best then it else best) x xs))"

definition max_by_mid :: "('k \<times> real) list \<Rightarrow> py_error + ('k \<times> real)" where
  "max_by_mid items =
     (case items of
        [] \<Rightarrow> Inl ValueError
      | x # xs \<Rightarrow> Inr (foldl (\<lambda>best it. if snd it > snd best then it else best) x xs))"

text \<open>
  One iteration of the loop over the ticks (lines 56 to 64). The state is the pair of
  \<open>last_mid\<close> and \<open>metric_rows\<close>. The float division raises \<open>ZeroDivisionError\<close>
  when \<open>avg_mid\<close> is zero; the code has no test of \<open>avg_mid\<close> before it.
\<close>

definition metric_step ::
  "(string \<times> real) list \<times> metric_row list \<Rightarrow> tick \<Rightarrow>
     py_error + ((string \<times> real) list \<times> metric_row list)" where
  "metric_step st t =
     (let last_mid = dict_set (fst st) (venue t) (mid t);
          metric_rows = snd st
      in if length last_mid \<ge> 2 then
           (case min_by_mid last_mid of
              Inl e \<Rightarrow> Inl e
            | Inr (min_venue, min_mid) \<Rightarrow>
           (case max_by_mid last_mid of
              Inl e \<Rightarrow> Inl e
            | Inr (max_venue, max_mid) \<Rightarrow>
                let avg_mid = (min_mid + max_mid) / 2
                in if avg_mid = 0 then Inl ZeroDivisionError
                   else
                     let spread_bps = (max_mid - min_mid) / avg_mid * 10000
                     in Inr (last_mid,
                             metric_rows @
                             [\<lparr>row_ts_ms = ts_ms t, row_min_venue = min_venue,
                               row_max_venue = max_venue, row_min_mid = min_mid,
                               row_max_mid = max_mid, row_spread_bps = spread_bps\<rparr>])))
         else Inr (last_mid, metric_rows))"

fun metrics_loop ::
  "(string \<times> real) list \<times> metric_row list \<Rightarrow> tick list \<Rightarrow>
     py_error + ((string \<times> real) list \<times> metric_row list)" where
  "metrics_loop st [] = Inr st"
| "metrics_loop st (t # ticks) =
     (case metric_step st t of
        Inl e \<Rightarrow> Inl e
      | Inr st' \<Rightarrow> metrics_loop st' ticks)"

definition build_metrics ::
  "tick list \<Rightarrow> py_error + ((string \<times> real) list \<times> metric_row list)" where
  "build_metrics ticks = metrics_loop ([], []) ticks"

section \<open>scripts/detect\_events.py: the event extractor\<close>

record event =
  start_ms :: int
  end_ms :: int
  duration_ms :: int
  peak_bps :: "real option"
  min_venue :: string
  max_venue :: string
  n_points :: "int option"

text \<open>
  The loop variables of lines 76 to 79. \<open>start\<close>, \<open>peak\<close> and \<open>peak_v\<close> are
  \<open>None\<close> until the first entry; a subtraction, a comparison or a subscript on
  \<open>None\<close> raises \<open>TypeError\<close>, while \<open>peak\<close> is stored in the event as it is.
\<close>

record extractor =
  events :: "event list"
  in_event :: bool
  start :: "int option"
  peak :: "real option"
  peak_v :: "(string \<times> string) option"

definition extractor_init :: extractor where
  "extractor_init =
     \<lparr>events = [], in_event = False, start = None, peak = None, peak_v = None\<rparr>"

text \<open>
  Lines 96 to 110 and 114 to 128 build the same dictionary from \<open>start\<close>, \<open>end\<close>,
  \<open>peak\<close> and \<open>peak_v\<close> and append it when \<open>dur >= persistence_ms\<close>.
\<close>

definition close_interval :: "int \<Rightarrow> extractor \<Rightarrow> int \<Rightarrow> py_error + event list" where
  "close_interval persistence_ms s end' =
     (case start s of
        None \<Rightarrow> Inl TypeError
      | Some st \<Rightarrow>
          let dur = end' - st
          in if dur \<ge> persistence_ms then
               (case peak_v s of
                  None \<Rightarrow> Inl TypeError
                | Some pv \<Rightarrow>
                    Inr (events s @
                         [\<lparr>start_ms = st, end_ms = end', duration_ms = dur,
                           peak_bps = peak s, min_venue = fst pv, max_venue = snd pv,
                           n_points = None\<rparr>]))
             else Inr (events s))"

definition extract_step ::
  "real \<Rightarrow> int \<Rightarrow> extractor \<Rightarrow> metric_row \<Rightarrow> py_error + extractor" where
  "extract_step threshold_bps persistence_ms s row =
     (let ts = row_ts_ms row; bps = row_spread_bps row
      in if bps \<ge> threshold_bps then
           (if \<not> in_event s then
              Inr (s\<lparr>in_event := True, start := Some ts, peak := Some bps,
                     peak_v := Some (row_min_venue row, row_max_venue row)\<rparr>)
            else
              (case peak s of
                 None \<Rightarrow> Inl TypeError
               | Some pk \<Rightarrow>
                   if bps > pk then
                     Inr (s\<lparr>peak := Some bps,
                            peak_v := Some (row_min_venue row, row_max_venue row)\<rparr>)
                   else Inr s))
         else
           (if in_event s then
              (case close_interval persistence_ms s ts of
                 Inl e \<Rightarrow> Inl e
               | Inr evs \<Rightarrow> Inr (s\<lparr>events := evs, in_event := False\<rparr>))
            else Inr s))"

fun extract_loop ::
  "real \<Rightarrow> int \<Rightarrow> extractor \<Rightarrow> metric_row list \<Rightarrow> py_error + extractor" where
  "extract_loop threshold_bps persistence_ms s [] = Inr s"
| "extract_loop threshold_bps persistence_ms s (row # rows) =
     (case extract_step threshold_bps persistence_ms s row of
        Inl e \<Rightarrow> Inl e
      | Inr s' \<Rightarrow> extract_loop threshold_bps persistence_ms s' rows)"

text \<open>
  Lines 113 to 128: the trailing interval is closed at the timestamp of the last metric
  row (\<^verbatim>\<open>metrics["ts_ms"].iloc[-1]\<close>). The extractor only runs on a non-empty metric
  table (line 71 returns early otherwise), so the last row exists whenever the state is
  inside; \<open>iloc[-1]\<close> on an empty table would raise, which is the \<open>[]\<close> branch.
\<close>

definition close_trailing ::
  "int \<Rightarrow> extractor \<Rightarrow> metric_row list \<Rightarrow> py_error + event list" where
  "close_trailing persistence_ms s metrics =
     (if in_event s then
        (case metrics of
           [] \<Rightarrow> Inl ValueError
         | _ \<Rightarrow> close_interval persistence_ms s (row_ts_ms (last metrics)))
      else Inr (events s))"

definition extract_events ::
  "real \<Rightarrow> int \<Rightarrow> metric_row list \<Rightarrow> py_error + event list" where
  "extract_events threshold_bps persistence_ms metrics =
     (case extract_loop threshold_bps persistence_ms extractor_init metrics of
        Inl e \<Rightarrow> Inl e
      | Inr s \<Rightarrow> close_trailing persistence_ms s metrics)"

text \<open>
  The part of \<open>main\<close> after the tick query: \<open>None\<close> is the early return of line 73
  (no metrics, nothing written), \<open>Some (metrics, events)\<close> are the two tables written.
\<close>

definition detect_events ::
  "real \<Rightarrow> int \<Rightarrow> tick list \<Rightarrow> py_error + (metric_row list \<times> event list) option" where
  "detect_events threshold_bps persistence_ms ticks =
     (case build_metrics ticks of
        Inl e \<Rightarrow> Inl e
      | Inr (last_mid, metrics) \<Rightarrow>
          if metrics = [] then Inr None
          else
            (case extract_events threshold_bps persistence_ms metrics of
               Inl e \<Rightarrow> Inl e
             | Inr evs \<Rightarrow> Inr (Some (metrics, evs))))"

section \<open>scripts/backtest.py: configuration values\<close>

text \<open>
  What \<^verbatim>\<open>yaml.safe_load\<close> returns. A mapping is an association list in file order.
\<close>

datatype yaml =
    YNull
  | YBool bool
  | YInt int
  | YFloat real
  | YStr string
  | YList "yaml list"
  | YDict "(string \<times> yaml) list"

text \<open>\<^verbatim>\<open>d.get(k, default)\<close> on a dict.\<close>

definition dict_get :: "(string \<times> yaml) list \<Rightarrow> string \<Rightarrow> yaml \<Rightarrow> yaml" where
  "dict_get d k dflt = (case map_of d k of None \<Rightarrow> dflt | Some v \<Rightarrow> v)"

text \<open>Python truthiness, as \<^verbatim>\<open>x or y\<close> tests it.\<close>

fun truthy :: "yaml \<Rightarrow> bool" where
  "truthy YNull = False"
| "truthy (YBool b) = b"
| "truthy (YInt i) = (i \<noteq> 0)"
| "truthy (YFloat r) = (r \<noteq> 0)"
| "truthy (YStr s) = (s \<noteq> [])"
| "truthy (YList l) = (l \<noteq> [])"
| "truthy (YDict d) = (d \<noteq> [])"

definition py_or :: "yaml \<Rightarrow> yaml \<Rightarrow> yaml" where
  "py_or x y = (if truthy x then x else y)"

text \<open>
  \<^verbatim>\<open>float(i)\<close> of a Python integer. An integer of magnitude at most \<open>2^53\<close> is a
  float. A larger one is rounded to 53 significant bits, to the nearest value and to the
  even one at a tie; when the rounded magnitude reaches \<open>2^1024\<close> the conversion
  raises \<open>OverflowError\<close>. \<open>bit_length\<close> is \<^verbatim>\<open>int.bit_length\<close>.
\<close>

fun bit_length :: "nat \<Rightarrow> nat" where
  "bit_length n = (if n = 0 then 0 else Suc (bit_length (n div 2)))"

declare bit_length.simps [simp del]

definition round_half_even :: "int \<Rightarrow> nat \<Rightarrow> int" where
  "round_half_even a e =
     (let q = a div 2 ^ e; r = a mod 2 ^ e; h = 2 ^ (e - 1)
      in if r < h \<or> (r = h \<and> even q) then q else q + 1)"

definition float_of_int :: "int \<Rightarrow> py_error + real" where
  "float_of_int i =
     (let a = \<bar>i\<bar>
      in if a \<le> 2 ^ 53 then Inr (of_int i)
         else
           (let e = bit_length (nat a) - 53;
                m = round_half_even a e * 2 ^ e
            in if m \<ge> 2 ^ 1024 then Inl OverflowError
               else Inr (of_int (sgn i * m))))"

text \<open>
  The builtins \<^verbatim>\<open>float(v)\<close> and \<^verbatim>\<open>int(v)\<close>. How Python reads a number from
  a string is not part of this repository: \<open>float_of_str\<close> and \<open>int_of_str\<close> are
  parameters, \<open>None\<close> where the builtin raises \<open>ValueError\<close>. \<open>None\<close>, a list and
  a dict raise \<open>TypeError\<close>; \<open>int\<close> of a float truncates towards zero.
\<close>

fun py_float :: "(string \<Rightarrow> real option) \<Rightarrow> yaml \<Rightarrow> py_error + real" where
  "py_float float_of_str YNull = Inl TypeError"
| "py_float float_of_str (YBool b) = Inr (if b then 1 else 0)"
| "py_float float_of_str (YInt i) = float_of_int i"
| "py_float float_of_str (YFloat r) = Inr r"
| "py_float float_of_str (YStr s) =
     (case float_of_str s of None \<Rightarrow> Inl ValueError | Some r \<Rightarrow> Inr r)"
| "py_float float_of_str (YList l) = Inl TypeError"
| "py_float float_of_str (YDict d) = Inl TypeError"

fun py_int :: "(string \<Rightarrow> int option) \<Rightarrow> yaml \<Rightarrow> py_error + int" where
  "py_int int_of_str YNull = Inl TypeError"
| "py_int int_of_str (YBool b) = Inr (if b then 1 else 0)"
| "py_int int_of_str (YInt i) = Inr i"
| "py_int int_of_str (YFloat r) = Inr (if r \<ge> 0 then \<lfloor>r\<rfloor> else \<lceil>r\<rceil>)"
| "py_int int_of_str (YStr s) =
     (case int_of_str s of None \<Rightarrow> Inl ValueError | Some i \<Rightarrow> Inr i)"
| "py_int int_of_str (YList l) = Inl TypeError"
| "py_int int_of_str (YDict d) = Inl TypeError"

section \<open>scripts/backtest.py: the cost model\<close>

text \<open>
  \<^verbatim>\<open>sum(float(v) for v in costs.values())\<close>: the generator converts the values in
  order, and the first conversion that raises ends the sum with that exception.
\<close>

fun sum_floats :: "(string \<Rightarrow> real option) \<Rightarrow> yaml list \<Rightarrow> py_error + real" where
  "sum_floats float_of_str [] = Inr 0"
| "sum_floats float_of_str (v # vs) =
     (case py_float float_of_str v of
        Inl e \<Rightarrow> Inl e
      | Inr x \<Rightarrow>
          (case sum_floats float_of_str vs of
             Inl e \<Rightarrow> Inl e
           | Inr y \<Rightarrow> Inr (x + y)))"

definition total_cost_bps_from_cfg ::
  "(string \<Rightarrow> real option) \<Rightarrow> (string \<times> yaml) list \<Rightarrow> py_error + real" where
  "total_cost_bps_from_cfg float_of_str cfg =
     (let costs = py_or (dict_get cfg ''costs_bps'' (YDict [])) (YDict [])
      in case costs of
           YDict d \<Rightarrow>
             (case sum_floats float_of_str (map snd d) of
                Inl e \<Rightarrow> Inl e
              | Inr per_action_bps \<Rightarrow> Inr (4 * per_action_bps))
         | _ \<Rightarrow> Inr 0)"

definition latency_from_cfg :: "(string \<Rightarrow> int option) \<Rightarrow> (string \<times> yaml) list \<Rightarrow> int" where
  "latency_from_cfg int_of_str cfg =
     (let latency_ms = py_or (dict_get cfg ''latency_ms'' (YInt 0)) (YInt 0)
      in case py_int int_of_str latency_ms of
           Inl e \<Rightarrow> 0
         | Inr i \<Rightarrow> i)"

section \<open>scripts/backtest.py: the tick store and the nearest mid\<close>

text \<open>
  A row of the \<open>ticks\<close> table as read from SQLite: a field is \<open>None\<close> when it is
  NULL or, for the two numeric columns, when \<^verbatim>\<open>pd.to_numeric(..., errors="coerce")\<close>
  turns it into NaN. Lines 115 to 119 drop every row with such a field.
\<close>

record raw_tick =
  raw_ts_ms :: "int option"
  raw_venue :: "string option"
  raw_mid :: "real option"

definition clean_ticks :: "raw_tick list \<Rightarrow> tick list" where
  "clean_ticks raw =
     List.map_filter
       (\<lambda>r. case (raw_ts_ms r, raw_venue r, raw_mid r) of
              (Some t, Some v, Some m) \<Rightarrow> Some \<lparr>ts_ms = t, venue = v, mid = m\<rparr>
            | _ \<Rightarrow> None)
       raw"

text \<open>
  \<open>nearest_mid\<close>: \<^verbatim>\<open>idxmin\<close> returns the first row of the venue's ticks at which the
  absolute distance to \<open>ts_ms\<close> is minimal. The mid of a cleaned tick is a number, so
  the \<^verbatim>\<open>float(val)\<close> of line 62 does not raise.
\<close>

definition nearest_mid :: "tick list \<Rightarrow> int \<Rightarrow> string \<Rightarrow> real option" where
  "nearest_mid ticks ts venue' =
     (let sub = filter (\<lambda>t. venue t = venue') ticks
      in case sub of
           [] \<Rightarrow> None
         | x # xs \<Rightarrow>
             Some (mid (foldl (\<lambda>best t. if \<bar>ts_ms t - ts\<bar> < \<bar>ts_ms best - ts\<bar> then t else best)
                          x xs)))"

section \<open>scripts/backtest.py: the backtest loop\<close>

text \<open>
  The events table read by \<^verbatim>\<open>pd.read_csv\<close>: its column names, and for each row the
  four required fields and the cell of the optional \<open>spread_bps\<close> column (a number, or
  text when the column holds strings). The cell is read only when the column exists.
\<close>

datatype cell = Num real | Text string

record event_row =
  in_start_ms :: int
  in_end_ms :: int
  in_min_venue :: string
  in_max_venue :: string
  in_spread_bps :: cell

record events_table =
  columns :: "string list"
  ev_rows :: "event_row list"

text \<open>Lines 150 to 154: \<^verbatim>\<open>float(getattr(r, "spread_bps"))\<close> inside \<^verbatim>\<open>try\<close>.\<close>

definition carried_spread ::
  "(string \<Rightarrow> real option) \<Rightarrow> events_table \<Rightarrow> event_row \<Rightarrow> real option" where
  "carried_spread float_of_str evs r =
     (if ''spread_bps'' \<in> set (columns evs) then
        (case in_spread_bps r of
           Num x \<Rightarrow> Some x
         | Text s \<Rightarrow> float_of_str s)
      else None)"

record trade =
  tr_start_ms :: int
  tr_end_ms :: int
  tr_duration_ms :: int
  tr_entry_ts :: int
  tr_exit_ts :: int
  tr_long_venue :: string
  tr_short_venue :: string
  tr_long_entry_mid :: "real option"
  tr_short_entry_mid :: "real option"
  tr_long_exit_mid :: "real option"
  tr_short_exit_mid :: "real option"
  tr_spread_bps :: real
  tr_pnl_bps :: real
  tr_total_cost_bps :: real
  tr_pnl_net_bps :: real

text \<open>
  The body of the loop over the events (lines 138 to 198): \<open>None\<close> is the
  \<^verbatim>\<open>continue\<close> of line 173, \<open>Some\<close> the dictionary appended to \<open>trades\<close>.
\<close>

definition backtest_event ::
  "(string \<Rightarrow> real option) \<Rightarrow> real \<Rightarrow> int \<Rightarrow> tick list \<Rightarrow> events_table \<Rightarrow> event_row
     \<Rightarrow> trade option" where
  "backtest_event float_of_str total_cost_bps latency_ms ticks evs r =
     (let long_v = in_min_venue r;
          short_v = in_max_venue r;
          entry_ts = in_start_ms r + latency_ms;
          exit_ts = in_end_ms r + latency_ms;
          carried = carried_spread float_of_str evs r;
          long_entry = nearest_mid ticks entry_ts long_v;
          short_entry = nearest_mid ticks entry_ts short_v;
          long_exit = nearest_mid ticks exit_ts long_v;
          short_exit = nearest_mid ticks exit_ts short_v;
          spread =
            (case carried of
               Some x \<Rightarrow> Some x
             | None \<Rightarrow>
                 (case long_entry of
                    None \<Rightarrow> None
                  | Some le \<Rightarrow>
                      (case short_entry of
                         None \<Rightarrow> None
                       | Some se \<Rightarrow>
                           let mid_avg = (le + se) / 2
                           in if mid_avg > 0 then Some ((se - le) / mid_avg * 10000)
                              else None)))
      in case spread of
           None \<Rightarrow> None
         | Some spread_bps \<Rightarrow>
             let pnl_bps = spread_bps;
                 pnl_net_bps = pnl_bps - total_cost_bps
             in Some \<lparr>tr_start_ms = in_start_ms r, tr_end_ms = in_end_ms r,
                       tr_duration_ms = in_end_ms r - in_start_ms r,
                       tr_entry_ts = entry_ts, tr_exit_ts = exit_ts,
                       tr_long_venue = long_v, tr_short_venue = short_v,
                       tr_long_entry_mid = long_entry, tr_short_entry_mid = short_entry,
                       tr_long_exit_mid = long_exit, tr_short_exit_mid = short_exit,
                       tr_spread_bps = spread_bps, tr_pnl_bps = pnl_bps,
                       tr_total_cost_bps = total_cost_bps, tr_pnl_net_bps = pnl_net_bps\<rparr>)"

text \<open>
  How a run of \<open>main\<close> ends when it raises nothing: the three early returns, which
  write no trades file, or the trades written to it.
\<close>

datatype outcome = NoEvents | TicksEmpty | NoTrades | Saved "trade list"

fun trades_of :: "outcome \<Rightarrow> trade list" where
  "trades_of (Saved trades) = trades"
| "trades_of out = []"

definition required_cols :: "string list" where
  "required_cols = [''start_ms'', ''end_ms'', ''min_venue'', ''max_venue'']"

text \<open>
  \<open>main\<close> of the backtest. The events file is \<open>None\<close> when it is missing, empty or
  without columns; the tick database is \<open>None\<close> when the file does not exist.
\<close>

definition backtest_main ::
  "(string \<Rightarrow> real option) \<Rightarrow> (string \<Rightarrow> int option) \<Rightarrow> (string \<times> yaml) list \<Rightarrow>
     events_table option \<Rightarrow> raw_tick list option \<Rightarrow> py_error + outcome" where
  "backtest_main float_of_str int_of_str cfg events_file ticks_db =
     (case events_file of
        None \<Rightarrow> Inr NoEvents
      | Some evs \<Rightarrow>
          if ev_rows evs = [] then Inr NoEvents
          else
            (case ticks_db of
               None \<Rightarrow> Inl FileNotFoundError
             | Some raw \<Rightarrow>
                 if raw = [] then Inr TicksEmpty
                 else
                   let ticks = clean_ticks raw
                   in (case total_cost_bps_from_cfg float_of_str cfg of
                         Inl e \<Rightarrow> Inl e
                       | Inr total_cost_bps \<Rightarrow>
                           (let latency_ms = latency_from_cfg int_of_str cfg
                            in if \<not> list_all (\<lambda>c. c \<in> set (columns evs)) required_cols
                               then Inl ValueError
                               else
                                 (let trades =
                                        List.map_filter
                                          (backtest_event float_of_str total_cost_bps
                                             latency_ms ticks evs)
                                          (ev_rows evs)
                                  in if trades = [] then Inr NoTrades
                                     else Inr (Saved trades))))))"

section \<open>Notions used to state the properties\<close>



text \<open>A venue has tick coverage when the tick store holds a tick of it.\<close>

definition covered :: "tick list \<Rightarrow> string \<Rightarrow> bool" where
  "covered ticks v = (v \<in> venue ` set ticks)"

text \<open>The last tick of venue \<open>v\<close> in a sequence of ticks, if there is one.\<close>

definition latest_tick :: "string \<Rightarrow> tick list \<Rightarrow> tick option" where
  "latest_tick v ticks =
     (case filter (\<lambda>t. venue t = v) ticks of
        [] \<Rightarrow> None
      | x # xs \<Rightarrow> Some (last (x # xs)))"

text \<open>While the extractor is inside an interval, its three side variables are set.\<close>

definition ready :: "extractor \<Rightarrow> bool" where
  "ready s = (in_event s \<longrightarrow> start s \<noteq> None \<and> peak s \<noteq> None \<and> peak_v s \<noteq> None)"

text \<open>
  The row kept as the peak of a run of rows: a later row replaces it only when its spread
  is strictly greater, so the first row of maximal spread is the peak.
\<close>

definition better_row :: "metric_row \<Rightarrow> metric_row \<Rightarrow> metric_row" where
  "better_row best r = (if row_spread_bps r > row_spread_bps best then r else best)"

definition peak_row :: "metric_row list \<Rightarrow> metric_row" where
  "peak_row run = foldl better_row (hd run) (tl run)"

text \<open>The event of a run of rows that is closed at the timestamp \<open>end'\<close>.\<close>

definition interval_event :: "metric_row list \<Rightarrow> int \<Rightarrow> event" where
  "interval_event run end' =
     \<lparr>start_ms = row_ts_ms (hd run), end_ms = end',
      duration_ms = end' - row_ts_ms (hd run),
      peak_bps = Some (row_spread_bps (peak_row run)),
      min_venue = row_min_venue (peak_row run),
      max_venue = row_max_venue (peak_row run),
      n_points = None\<rparr>"

text \<open>
  Two extractor states that differ by the events \<open>E\<close> emitted earlier, and by the stale
  side variables of an interval that is already closed.
\<close>

definition same_from :: "event list \<Rightarrow> extractor \<Rightarrow> extractor \<Rightarrow> bool" where
  "same_from E s t =
     (in_event s = in_event t \<and> events s = E @ events t \<and>
      (in_event s \<longrightarrow> start s = start t \<and> peak s = peak t \<and> peak_v s = peak_v t))"

text \<open>Every event of a list passed the persistence filter.\<close>

definition filtered :: "int \<Rightarrow> event list \<Rightarrow> bool" where
  "filtered p evs =
     (\<forall>e\<in>set evs. p \<le> duration_ms e \<and> duration_ms e = end_ms e - start_ms e)"

text \<open>
  The events emitted so far are ordered and end no later than \<open>b\<close>, and an open
  interval starts after all of them and no later than \<open>b\<close>.
\<close>

definition ordered_upto :: "int \<Rightarrow> extractor \<Rightarrow> bool" where
  "ordered_upto b s =
     (ready s \<and>
      (\<forall>e\<in>set (events s). start_ms e \<le> end_ms e \<and> end_ms e \<le> b) \<and>
      sorted_wrt (\<lambda>e1 e2. end_ms e1 \<le> start_ms e2) (events s) \<and>
      (in_event s \<longrightarrow>
         (\<exists>st. start s = Some st \<and> st \<le> b \<and> (\<forall>e\<in>set (events s). end_ms e \<le> st))))"

text \<open>A metric row with timestamp \<open>ts\<close> and spread \<open>bps\<close>.\<close>

definition sample :: "string \<Rightarrow> string \<Rightarrow> real \<Rightarrow> real \<Rightarrow> int \<Rightarrow> real \<Rightarrow> metric_row" where
  "sample a b m M ts bps =
     \<lparr>row_ts_ms = ts, row_min_venue = a, row_max_venue = b, row_min_mid = m,
      row_max_mid = M, row_spread_bps = bps\<rparr>"

section \<open>The as-of merge and the spread metric\<close>

lemma map_of_dict_set: "map_of (dict_set d k v) = (map_of d)(k \<mapsto> v)"
  by (induction d k v rule: dict_set.induct) auto

lemma keys_dict_set: "fst ` set (dict_set d k v) = insert k (fst ` set d)"
  by (induction d k v rule: dict_set.induct) auto

lemma distinct_dict_set: "distinct (map fst d) \<Longrightarrow> distinct (map fst (dict_set d k v))"
  by (induction d k v rule: dict_set.induct) (auto simp: keys_dict_set)

lemma length_distinct_keys: "distinct (map fst d) \<Longrightarrow> length d = card (fst ` set d)"
  using distinct_card[of "map fst d"] by simp

lemma latest_tick_Cons:
  "latest_tick v (t # ticks) =
     (case latest_tick v ticks of
        Some u \<Rightarrow> Some u
      | None \<Rightarrow> if venue t = v then Some t else None)"
  by (auto simp: latest_tick_def split: list.splits)

lemma metric_step_last_mid:
  "metric_step st t = Inr st' \<Longrightarrow> fst st' = dict_set (fst st) (venue t) (mid t)"
  by (auto simp: metric_step_def Let_def split: if_splits sum.splits prod.splits)

lemma metrics_loop_last_mid:
  assumes "metrics_loop st ticks = Inr st'"
  shows "map_of (fst st') v =
     (case latest_tick v ticks of None \<Rightarrow> map_of (fst st) v | Some t \<Rightarrow> Some (mid t))"
  using assms
proof (induction ticks arbitrary: st)
  case Nil
  then show ?case by (simp add: latest_tick_def)
next
  case (Cons t ticks)
  from Cons.prems obtain st1 where st1: "metric_step st t = Inr st1"
    "metrics_loop st1 ticks = Inr st'"
    by (auto split: sum.splits)
  from metric_step_last_mid[OF st1(1)] have "map_of (fst st1) = (map_of (fst st))(venue t \<mapsto> mid t)"
    by (simp add: map_of_dict_set)
  with Cons.IH[OF st1(2)] show ?case
    by (auto simp: latest_tick_Cons split: option.splits)
qed

lemma metrics_loop_append:
  "metrics_loop st (xs @ ys) =
     (case metrics_loop st xs of Inl e \<Rightarrow> Inl e | Inr st' \<Rightarrow> metrics_loop st' ys)"
  by (induction xs arbitrary: st) (auto split: sum.splits)

lemma metrics_loop_few_venues:
  assumes "distinct (map fst lm)" "card (fst ` set lm \<union> venue ` set ticks) < 2"
  shows "\<exists>lm'. metrics_loop (lm, rows) ticks = Inr (lm', rows)"
  using assms
proof (induction ticks arbitrary: lm)
  case Nil
  then show ?case by simp
next
  case (Cons t ticks)
  let ?lm1 = "dict_set lm (venue t) (mid t)"
  have d1: "distinct (map fst ?lm1)" by (rule distinct_dict_set[OF Cons.prems(1)])
  have "fst ` set ?lm1 \<subseteq> fst ` set lm \<union> venue ` set (t # ticks)"
    by (auto simp: keys_dict_set)
  then have "card (fst ` set ?lm1) \<le> card (fst ` set lm \<union> venue ` set (t # ticks))"
    by (intro card_mono) auto
  with Cons.prems(2) length_distinct_keys[OF d1] have "length ?lm1 < 2" by simp
  then have step: "metric_step (lm, rows) t = Inr (?lm1, rows)"
    by (simp add: metric_step_def Let_def)
  have "fst ` set ?lm1 \<union> venue ` set ticks = fst ` set lm \<union> venue ` set (t # ticks)"
    by (auto simp: keys_dict_set)
  with Cons.prems(2) have "card (fst ` set ?lm1 \<union> venue ` set ticks) < 2" by simp
  from Cons.IH[OF d1 this] step show ?case by simp
qed

lemma sorted_last_greatest:
  "sorted (map f xs) \<Longrightarrow> xs \<noteq> [] \<Longrightarrow> \<forall>u\<in>set xs. (f u :: int) \<le> f (last xs)"
  by (induction xs) auto

lemma latest_tick_sorted:
  assumes "sorted (map ts_ms ticks)" "latest_tick v ticks = Some t"
  shows "t \<in> set ticks \<and> venue t = v \<and> (\<forall>u\<in>set ticks. venue u = v \<longrightarrow> ts_ms u \<le> ts_ms t)"
proof -
  let ?sub = "filter (\<lambda>t. venue t = v) ticks"
  from assms(2) have ne: "?sub \<noteq> []" and t: "t = last ?sub"
    by (auto simp: latest_tick_def split: list.splits)
  from ne t have "t \<in> set ?sub" using last_in_set by blast
  then have mem: "t \<in> set ticks" "venue t = v" by auto
  have "sorted (map ts_ms ?sub)"
    using assms(1) by (simp add: sorted_filter)
  from sorted_last_greatest[OF this ne] t
  have "\<forall>u\<in>set ?sub. ts_ms u \<le> ts_ms t" by simp
  with mem show ?thesis by auto
qed

text \<open>
  C4. After the loop has consumed a sequence of ticks (any prefix of the stream), the entry
  of \<open>last_mid\<close> for a venue is the mid of the last tick of that venue in the sequence,
  and no entry when the venue has no tick there; with ascending timestamps that tick has
  the greatest timestamp among the venue's ticks consumed. While fewer than two distinct
  venues have reported, the loop does not fail and has emitted no metric row. The state
  after a prefix is the state from which the rest of the stream is processed, so it
  depends on no later tick.
\<close>

theorem as_of_merge:
  "(\<forall>lm rows. build_metrics ticks = Inr (lm, rows) \<longrightarrow>
       map_of lm v = map_option mid (latest_tick v ticks))
   \<and> (\<forall>t. sorted (map ts_ms ticks) \<and> latest_tick v ticks = Some t \<longrightarrow>
         t \<in> set ticks \<and> venue t = v \<and>
         (\<forall>u\<in>set ticks. venue u = v \<longrightarrow> ts_ms u \<le> ts_ms t))
   \<and> (card (venue ` set ticks) < 2 \<longrightarrow> (\<exists>lm. build_metrics ticks = Inr (lm, [])))
   \<and> build_metrics (ticks @ later) =
       (case build_metrics ticks of Inl e \<Rightarrow> Inl e | Inr st \<Rightarrow> metrics_loop st later)"
proof -
  have a: "\<forall>lm rows. build_metrics ticks = Inr (lm, rows) \<longrightarrow>
       map_of lm v = map_option mid (latest_tick v ticks)"
  proof (intro allI impI)
    fix lm rows
    assume "build_metrics ticks = Inr (lm, rows)"
    then have "metrics_loop ([], []) ticks = Inr (lm, rows)"
      by (simp add: build_metrics_def)
    from metrics_loop_last_mid[OF this, of v]
    show "map_of lm v = map_option mid (latest_tick v ticks)"
      by (simp split: option.splits)
  qed
  have b: "\<forall>t. sorted (map ts_ms ticks) \<and> latest_tick v ticks = Some t \<longrightarrow>
         t \<in> set ticks \<and> venue t = v \<and>
         (\<forall>u\<in>set ticks. venue u = v \<longrightarrow> ts_ms u \<le> ts_ms t)"
    using latest_tick_sorted by blast
  have c: "card (venue ` set ticks) < 2 \<longrightarrow> (\<exists>lm. build_metrics ticks = Inr (lm, []))"
    using metrics_loop_few_venues[of "[]" ticks "[]"] by (simp add: build_metrics_def)
  have d: "build_metrics (ticks @ later) =
       (case build_metrics ticks of Inl e \<Rightarrow> Inl e | Inr st \<Rightarrow> metrics_loop st later)"
    by (simp add: build_metrics_def metrics_loop_append)
  show ?thesis by (intro conjI a b c d)
qed

theorem as_of_merge_witness:
  "build_metrics
     [\<lparr>ts_ms = 0, venue = ''A'', mid = 100\<rparr>, \<lparr>ts_ms = 5, venue = ''B'', mid = 101\<rparr>,
      \<lparr>ts_ms = 9, venue = ''A'', mid = 102\<rparr>]
   = Inr ([(''A'', 102), (''B'', 101)],
          [\<lparr>row_ts_ms = 5, row_min_venue = ''A'', row_max_venue = ''B'', row_min_mid = 100,
            row_max_mid = 101, row_spread_bps = 20000 / 201\<rparr>,
           \<lparr>row_ts_ms = 9, row_min_venue = ''B'', row_max_venue = ''A'', row_min_mid = 101,
            row_max_mid = 102, row_spread_bps = 20000 / 203\<rparr>])
   \<and> map_option mid
        (latest_tick ''A''
          [\<lparr>ts_ms = 0, venue = ''A'', mid = 100\<rparr>, \<lparr>ts_ms = 5, venue = ''B'', mid = 101\<rparr>,
           \<lparr>ts_ms = 9, venue = ''A'', mid = 102\<rparr>])
      = Some 102
   \<and> (\<exists>lm. build_metrics
              [\<lparr>ts_ms = 0, venue = ''A'', mid = 100\<rparr>, \<lparr>ts_ms = 3, venue = ''A'', mid = 99\<rparr>]
            = Inr (lm, []))"
proof -
  let ?T = "[\<lparr>ts_ms = 0, venue = ''A'', mid = 100\<rparr>, \<lparr>ts_ms = 5, venue = ''B'', mid = 101\<rparr>,
      \<lparr>ts_ms = 9, venue = ''A'', mid = 102\<rparr>]"
  let ?U = "[\<lparr>ts_ms = 0, venue = ''A'', mid = 100\<rparr>, \<lparr>ts_ms = 3, venue = ''A'', mid = 99\<rparr>]"
  have run: "build_metrics ?T
   = Inr ([(''A'', 102), (''B'', 101)],
          [\<lparr>row_ts_ms = 5, row_min_venue = ''A'', row_max_venue = ''B'', row_min_mid = 100,
            row_max_mid = 101, row_spread_bps = 20000 / 201\<rparr>,
           \<lparr>row_ts_ms = 9, row_min_venue = ''B'', row_max_venue = ''A'', row_min_mid = 101,
            row_max_mid = 102, row_spread_bps = 20000 / 203\<rparr>])"
    by (simp add: build_metrics_def metric_step_def min_by_mid_def max_by_mid_def Let_def)
  from as_of_merge[of ?T "''A''" "[]"] run
  have "map_of [(''A'', 102), (''B'', 101 :: real)] ''A''
        = map_option mid (latest_tick ''A'' ?T)"
    by blast
  then have latest: "map_option mid (latest_tick ''A'' ?T) = Some 102" by simp
  have "card (venue ` set ?U) < 2" by simp
  with as_of_merge[of ?U "''A''" "[]"] have "\<exists>lm. build_metrics ?U = Inr (lm, [])"
    by blast
  with run latest show ?thesis by blast
qed

text \<open>
  C7. The loop of \<open>detect_events.py\<close> divides by \<open>avg_mid\<close> without testing it: two
  venues whose mids are both 0 make the run end with \<open>ZeroDivisionError\<close>. The
  reconstruction of the spread in \<open>backtest.py\<close> (line 168) tests \<open>mid_avg > 0\<close>
  before the same division.
\<close>

theorem zero_average_mid_raises:
  "build_metrics
     [\<lparr>ts_ms = 0, venue = ''KRAKEN'', mid = 0\<rparr>, \<lparr>ts_ms = 1, venue = ''BITSTAMP'', mid = 0\<rparr>]
   = Inl ZeroDivisionError"
  by (simp add: build_metrics_def metric_step_def min_by_mid_def max_by_mid_def Let_def)

section \<open>The event extractor\<close>

lemma ready_init: "ready extractor_init"
  by (simp add: ready_def extractor_init_def)

lemma extract_step_total:
  assumes "ready s"
  shows "\<exists>s'. extract_step thr p s row = Inr s' \<and> ready s' \<and>
           in_event s' = (thr \<le> row_spread_bps row)"
  using assms
  by (auto simp: extract_step_def close_interval_def ready_def Let_def split: option.splits)

lemma extract_loop_total:
  assumes "ready s"
  shows "\<exists>s'. extract_loop thr p s rows = Inr s' \<and> ready s' \<and>
           in_event s' = (if rows = [] then in_event s else thr \<le> row_spread_bps (last rows))"
  using assms
proof (induction rows arbitrary: s)
  case Nil
  then show ?case by simp
next
  case (Cons row rows)
  from extract_step_total[OF Cons.prems, of thr p row]
  obtain s1 where s1: "extract_step thr p s row = Inr s1" "ready s1"
    "in_event s1 = (thr \<le> row_spread_bps row)" by blast
  from Cons.IH[OF s1(2)] obtain s' where
    "extract_loop thr p s1 rows = Inr s'" "ready s'"
    "in_event s' = (if rows = [] then in_event s1 else thr \<le> row_spread_bps (last rows))"
    by blast
  with s1 show ?case by auto
qed

lemma extract_loop_append:
  "extract_loop thr p s (xs @ ys) =
     (case extract_loop thr p s xs of Inl e \<Rightarrow> Inl e | Inr s' \<Rightarrow> extract_loop thr p s' ys)"
  by (induction xs arbitrary: s) (auto split: sum.splits)

lemma extract_step_same_from:
  assumes "same_from E s t" "extract_step thr p t row = Inr t'"
  shows "\<exists>s'. extract_step thr p s row = Inr s' \<and> same_from E s' t'"
  using assms
  by (auto simp: extract_step_def close_interval_def same_from_def Let_def
      split: option.splits if_splits sum.splits)

lemma extract_loop_same_from:
  assumes "same_from E s t" "extract_loop thr p t rows = Inr t'"
  shows "\<exists>s'. extract_loop thr p s rows = Inr s' \<and> same_from E s' t'"
  using assms
proof (induction rows arbitrary: s t)
  case Nil
  then show ?case by simp
next
  case (Cons row rows)
  from Cons.prems(2) obtain t1 where t1: "extract_step thr p t row = Inr t1"
    "extract_loop thr p t1 rows = Inr t'"
    by (auto split: sum.splits)
  from extract_step_same_from[OF Cons.prems(1) t1(1)] obtain s1 where
    s1: "extract_step thr p s row = Inr s1" "same_from E s1 t1" by blast
  from Cons.IH[OF s1(2) t1(2)] s1(1) show ?case by simp
qed

lemma extract_events_total: "\<exists>evs. extract_events thr p rows = Inr evs"
proof -
  from extract_loop_total[OF ready_init, of thr p rows] obtain s where
    s: "extract_loop thr p extractor_init rows = Inr s" "ready s"
    "in_event s = (if rows = [] then in_event extractor_init else thr \<le> row_spread_bps (last rows))"
    by blast
  have "in_event s \<Longrightarrow> rows \<noteq> []"
    using s(3) by (auto simp: extractor_init_def split: if_splits)
  with s(1,2) show ?thesis
    by (auto simp: extract_events_def close_trailing_def close_interval_def ready_def Let_def
        split: list.splits option.splits)
qed

lemma close_trailing_inside:
  "in_event s \<Longrightarrow> metrics \<noteq> [] \<Longrightarrow>
     close_trailing p s metrics = close_interval p s (row_ts_ms (last metrics))"
  by (cases metrics) (simp_all add: close_trailing_def del: last.simps)

lemma close_trailing_outside: "\<not> in_event s \<Longrightarrow> close_trailing p s metrics = Inr (events s)"
  by (simp add: close_trailing_def)

lemma close_interval_same_from:
  assumes "same_from E s t" "in_event t" "close_interval p t e = Inr B"
  shows "close_interval p s e = Inr (E @ B)"
  using assms
  by (auto simp: close_interval_def same_from_def Let_def split: option.splits if_splits)

lemma close_trailing_same_from:
  assumes "same_from E s t" "close_trailing p t ys = Inr B" "in_event t \<longrightarrow> ys \<noteq> []"
  shows "close_trailing p s (xs @ ys) = Inr (E @ B)"
proof (cases "in_event t")
  case True
  with assms(3) have ys: "ys \<noteq> []" by simp
  from assms(1) True have ins: "in_event s" by (simp add: same_from_def)
  from True ys assms(2) have "close_interval p t (row_ts_ms (last ys)) = Inr B"
    by (simp add: close_trailing_inside)
  from close_interval_same_from[OF assms(1) True this] ins ys show ?thesis
    by (simp add: close_trailing_inside)
next
  case False
  with assms(1) have "\<not> in_event s" "events s = E @ events t"
    by (simp_all add: same_from_def)
  with False assms(2) show ?thesis
    by (simp add: close_trailing_outside)
qed

lemma extract_events_append:
  assumes "xs = [] \<or> row_spread_bps (last xs) < thr"
  shows "\<exists>A B. extract_events thr p xs = Inr A \<and> extract_events thr p ys = Inr B \<and>
           extract_events thr p (xs @ ys) = Inr (A @ B)"
proof -
  from extract_loop_total[OF ready_init, of thr p xs] obtain s1 where
    s1: "extract_loop thr p extractor_init xs = Inr s1" "ready s1"
    "in_event s1 = (if xs = [] then in_event extractor_init else thr \<le> row_spread_bps (last xs))"
    by blast
  from s1(3) assms have out: "\<not> in_event s1"
    by (auto simp: extractor_init_def split: if_splits)
  have A: "extract_events thr p xs = Inr (events s1)"
    using s1(1) out by (simp add: extract_events_def close_trailing_def)
  from extract_loop_total[OF ready_init, of thr p ys] obtain t where
    t: "extract_loop thr p extractor_init ys = Inr t" "ready t"
    "in_event t = (if ys = [] then in_event extractor_init else thr \<le> row_spread_bps (last ys))"
    by blast
  from extract_events_total[of thr p ys] obtain B where B: "extract_events thr p ys = Inr B"
    by blast
  with t(1) have ct: "close_trailing p t ys = Inr B"
    by (simp add: extract_events_def)
  have ne: "in_event t \<longrightarrow> ys \<noteq> []"
    using t(3) by (auto simp: extractor_init_def split: if_splits)
  have "same_from (events s1) s1 extractor_init"
    using out by (simp add: same_from_def extractor_init_def)
  from extract_loop_same_from[OF this t(1)] obtain s' where
    s': "extract_loop thr p s1 ys = Inr s'" "same_from (events s1) s' t" by blast
  have "extract_loop thr p extractor_init (xs @ ys) = Inr s'"
    using s1(1) s'(1) by (simp add: extract_loop_append)
  moreover have "close_trailing p s' (xs @ ys) = Inr (events s1 @ B)"
    by (rule close_trailing_same_from[OF s'(2) ct ne])
  ultimately have "extract_events thr p (xs @ ys) = Inr (events s1 @ B)"
    by (simp add: extract_events_def)
  with A B show ?thesis by blast
qed

lemma extract_loop_inside_run:
  assumes "in_event s" "peak s = Some (row_spread_bps b)"
    "peak_v s = Some (row_min_venue b, row_max_venue b)"
    "\<forall>r\<in>set rs. thr \<le> row_spread_bps r"
  shows "extract_loop thr p s rs =
     Inr (s\<lparr>peak := Some (row_spread_bps (foldl better_row b rs)),
           peak_v := Some (row_min_venue (foldl better_row b rs),
                           row_max_venue (foldl better_row b rs))\<rparr>)"
  using assms
proof (induction rs arbitrary: s b)
  case Nil
  then show ?case by simp
next
  case (Cons r rs)
  let ?s1 = "if row_spread_bps r > row_spread_bps b
             then s\<lparr>peak := Some (row_spread_bps r),
                    peak_v := Some (row_min_venue r, row_max_venue r)\<rparr>
             else s"
  have step: "extract_step thr p s r = Inr ?s1"
    using Cons.prems by (simp add: extract_step_def Let_def)
  have "extract_loop thr p ?s1 rs =
     Inr (?s1\<lparr>peak := Some (row_spread_bps (foldl better_row (better_row b r) rs)),
           peak_v := Some (row_min_venue (foldl better_row (better_row b r) rs),
                           row_max_venue (foldl better_row (better_row b r) rs))\<rparr>)"
    by (rule Cons.IH) (use Cons.prems in \<open>auto simp: better_row_def\<close>)
  with step show ?case by (simp split: if_splits)
qed

lemma extract_loop_run:
  assumes "\<not> in_event s" "run \<noteq> []" "\<forall>r\<in>set run. thr \<le> row_spread_bps r"
  shows "extract_loop thr p s run =
     Inr (s\<lparr>in_event := True, start := Some (row_ts_ms (hd run)),
           peak := Some (row_spread_bps (peak_row run)),
           peak_v := Some (row_min_venue (peak_row run), row_max_venue (peak_row run))\<rparr>)"
proof -
  from assms(2) obtain r rs where run: "run = r # rs" by (cases run) auto
  let ?s1 = "s\<lparr>in_event := True, start := Some (row_ts_ms r),
                peak := Some (row_spread_bps r),
                peak_v := Some (row_min_venue r, row_max_venue r)\<rparr>"
  have step: "extract_step thr p s r = Inr ?s1"
    using assms(1,3) run by (simp add: extract_step_def Let_def)
  have "extract_loop thr p ?s1 rs =
     Inr (?s1\<lparr>peak := Some (row_spread_bps (foldl better_row r rs)),
           peak_v := Some (row_min_venue (foldl better_row r rs),
                           row_max_venue (foldl better_row r rs))\<rparr>)"
    by (rule extract_loop_inside_run) (use assms(3) run in auto)
  with step run show ?thesis by (simp add: peak_row_def)
qed

lemma extract_events_run:
  assumes "run \<noteq> []" "\<forall>r\<in>set run. thr \<le> row_spread_bps r"
  shows "extract_events thr p run =
     Inr (if p \<le> row_ts_ms (last run) - row_ts_ms (hd run)
          then [interval_event run (row_ts_ms (last run))] else [])"
proof -
  have "\<not> in_event extractor_init" by (simp add: extractor_init_def)
  from extract_loop_run[OF this assms] assms(1) show ?thesis
    by (simp add: extract_events_def close_trailing_inside close_interval_def
        interval_event_def extractor_init_def)
qed

lemma extract_events_run_exit:
  assumes "run \<noteq> []" "\<forall>r\<in>set run. thr \<le> row_spread_bps r" "row_spread_bps x < thr"
  shows "extract_events thr p (run @ [x]) =
     Inr (if p \<le> row_ts_ms x - row_ts_ms (hd run)
          then [interval_event run (row_ts_ms x)] else [])"
proof -
  have "\<not> in_event extractor_init" by (simp add: extractor_init_def)
  from extract_loop_run[OF this assms(1,2), of p] assms(3) show ?thesis
    by (simp add: extract_events_def extract_loop_append extract_step_def Let_def
        close_trailing_outside close_interval_def interval_event_def extractor_init_def)
qed

lemma extract_events_segment:
  assumes "pre = [] \<or> row_spread_bps (last pre) < thr" "run \<noteq> []"
    "\<forall>r\<in>set run. thr \<le> row_spread_bps r" "row_spread_bps x < thr"
  shows "\<exists>evs_pre evs_rest.
     extract_events thr p pre = Inr evs_pre \<and> extract_events thr p rest = Inr evs_rest \<and>
     extract_events thr p (pre @ run @ x # rest) =
       Inr (evs_pre @
            (if p \<le> row_ts_ms x - row_ts_ms (hd run)
             then [interval_event run (row_ts_ms x)] else []) @
            evs_rest)"
proof -
  from extract_events_append[OF assms(1), of p "run @ x # rest"] obtain A B where
    AB: "extract_events thr p pre = Inr A" "extract_events thr p (run @ x # rest) = Inr B"
    "extract_events thr p (pre @ run @ x # rest) = Inr (A @ B)" by blast
  have "run @ [x] = [] \<or> row_spread_bps (last (run @ [x])) < thr"
    using assms(4) by simp
  from extract_events_append[OF this, of p rest] obtain C D where
    CD: "extract_events thr p (run @ [x]) = Inr C" "extract_events thr p rest = Inr D"
    "extract_events thr p ((run @ [x]) @ rest) = Inr (C @ D)" by blast
  from CD(1) extract_events_run_exit[OF assms(2,3,4), of p]
  have C: "C = (if p \<le> row_ts_ms x - row_ts_ms (hd run)
             then [interval_event run (row_ts_ms x)] else [])" by simp
  from AB(2) CD(3) have "B = C @ D" by simp
  with AB CD(2) C show ?thesis by simp
qed

lemma extract_events_trailing:
  assumes "pre = [] \<or> row_spread_bps (last pre) < thr" "run \<noteq> []"
    "\<forall>r\<in>set run. thr \<le> row_spread_bps r"
  shows "\<exists>evs_pre.
     extract_events thr p pre = Inr evs_pre \<and>
     extract_events thr p (pre @ run) =
       Inr (evs_pre @
            (if p \<le> row_ts_ms (last run) - row_ts_ms (hd run)
             then [interval_event run (row_ts_ms (last run))] else []))"
proof -
  from extract_events_append[OF assms(1), of p run] obtain A B where
    AB: "extract_events thr p pre = Inr A" "extract_events thr p run = Inr B"
    "extract_events thr p (pre @ run) = Inr (A @ B)" by blast
  from AB(2) extract_events_run[OF assms(2,3), of p]
  have "B = (if p \<le> row_ts_ms (last run) - row_ts_ms (hd run)
             then [interval_event run (row_ts_ms (last run))] else [])" by simp
  with AB show ?thesis by simp
qed

lemma extract_loop_init_inside:
  "\<exists>s. extract_loop thr p extractor_init rows = Inr s \<and>
       in_event s = (rows \<noteq> [] \<and> thr \<le> row_spread_bps (last rows))"
  using extract_loop_total[OF ready_init, of thr p rows]
  by (auto simp: extractor_init_def split: if_splits)

text \<open>
  C1. The extractor is inside at the end of the stream exactly when the last row is at or
  above the threshold. Then the rows are some \<open>pre\<close>, empty or ending below the
  threshold, followed by a non-empty run of rows at or above it, and the events are those
  of \<open>pre\<close> followed by the event of the run closed at the timestamp of the last row,
  if and only if that duration is at least \<open>persistence_ms\<close>. For spreads
  \<open>[10, 10, 10]\<close> at \<open>[0, 100, 200]\<close> with threshold 5 and persistence 0 the only
  event starts at 0 and ends at 200.
\<close>

theorem trailing_interval_flushed:
  "(\<exists>s. extract_loop thr p extractor_init rows = Inr s \<and>
        in_event s = (rows \<noteq> [] \<and> thr \<le> row_spread_bps (last rows)))
   \<and> ((pre = [] \<or> row_spread_bps (last pre) < thr) \<and> run \<noteq> [] \<and>
        (\<forall>r\<in>set run. thr \<le> row_spread_bps r)
        \<longrightarrow> (\<exists>evs_pre.
              extract_events thr p pre = Inr evs_pre \<and>
              extract_events thr p (pre @ run) =
                Inr (evs_pre @
                     (if p \<le> row_ts_ms (last run) - row_ts_ms (hd run)
                      then [interval_event run (row_ts_ms (last run))] else []))))
   \<and> extract_events 5 0 [sample a b m M 0 10, sample a b m M 100 10, sample a b m M 200 10]
       = Inr [\<lparr>start_ms = 0, end_ms = 200, duration_ms = 200, peak_bps = Some 10,
               min_venue = a, max_venue = b, n_points = None\<rparr>]"
proof (intro conjI impI)
  show "\<exists>s. extract_loop thr p extractor_init rows = Inr s \<and>
        in_event s = (rows \<noteq> [] \<and> thr \<le> row_spread_bps (last rows))"
    by (rule extract_loop_init_inside)
next
  assume "(pre = [] \<or> row_spread_bps (last pre) < thr) \<and> run \<noteq> [] \<and>
        (\<forall>r\<in>set run. thr \<le> row_spread_bps r)"
  then show "\<exists>evs_pre.
              extract_events thr p pre = Inr evs_pre \<and>
              extract_events thr p (pre @ run) =
                Inr (evs_pre @
                     (if p \<le> row_ts_ms (last run) - row_ts_ms (hd run)
                      then [interval_event run (row_ts_ms (last run))] else []))"
    using extract_events_trailing by blast
next
  show "extract_events 5 0 [sample a b m M 0 10, sample a b m M 100 10, sample a b m M 200 10]
       = Inr [\<lparr>start_ms = 0, end_ms = 200, duration_ms = 200, peak_bps = Some 10,
               min_venue = a, max_venue = b, n_points = None\<rparr>]"
    by (simp add: extract_events_def extract_step_def close_trailing_def close_interval_def
        extractor_init_def sample_def Let_def)
qed

theorem trailing_interval_flushed_witness:
  "extract_events 5 50
     [sample ''A'' ''B'' 100 101 0 1, sample ''A'' ''B'' 100 101 10 7,
      sample ''B'' ''A'' 100 101 90 9]
   = Inr [\<lparr>start_ms = 10, end_ms = 90, duration_ms = 80, peak_bps = Some 9,
           min_venue = ''B'', max_venue = ''A'', n_points = None\<rparr>]"
  using trailing_interval_flushed
    [of 5 50 "[]" "[sample ''A'' ''B'' 100 101 0 1]"
       "[sample ''A'' ''B'' 100 101 10 7, sample ''B'' ''A'' 100 101 90 9]"]
  by (simp add: extract_events_def extract_step_def close_trailing_def close_interval_def
      extractor_init_def sample_def Let_def interval_event_def peak_row_def better_row_def)

text \<open>
  C2. After every row the extractor is inside exactly when that row's spread is at or above
  the threshold: it enters on a row with \<open>spread_bps >= threshold_bps\<close> and leaves on a
  row with \<open>spread_bps < threshold_bps\<close>. A run of rows at or above the threshold that
  is followed by a row \<open>x\<close> below it is closed with \<open>end_ms\<close> the timestamp of
  \<open>x\<close>, the first row below the threshold. For spreads \<open>[4.9, 5.0, 5.1, 4.9]\<close> at
  \<open>[0, 10, 20, 30]\<close> with threshold 5 the interval is \<open>(10, 30)\<close> of duration 20.
\<close>

theorem threshold_crossing:
  "(\<exists>s. extract_loop thr p extractor_init (rows @ [row]) = Inr s \<and>
        in_event s = (thr \<le> row_spread_bps row))
   \<and> ((pre = [] \<or> row_spread_bps (last pre) < thr) \<and> run \<noteq> [] \<and>
        (\<forall>r\<in>set run. thr \<le> row_spread_bps r) \<and> row_spread_bps x < thr
        \<longrightarrow> (\<exists>evs_pre evs_rest.
              extract_events thr p pre = Inr evs_pre \<and>
              extract_events thr p rest = Inr evs_rest \<and>
              extract_events thr p (pre @ run @ x # rest) =
                Inr (evs_pre @
                     (if p \<le> row_ts_ms x - row_ts_ms (hd run)
                      then [interval_event run (row_ts_ms x)] else []) @
                     evs_rest)))
   \<and> (q \<le> 20 \<longrightarrow>
        extract_events 5 q
          [sample a b m M 0 4.9, sample a b m M 10 5.0, sample a b m M 20 5.1,
           sample a b m M 30 4.9]
        = Inr [\<lparr>start_ms = 10, end_ms = 30, duration_ms = 20, peak_bps = Some 5.1,
                min_venue = a, max_venue = b, n_points = None\<rparr>])"
proof (intro conjI impI)
  show "\<exists>s. extract_loop thr p extractor_init (rows @ [row]) = Inr s \<and>
        in_event s = (thr \<le> row_spread_bps row)"
    using extract_loop_init_inside[of thr p "rows @ [row]"] by simp
next
  assume "(pre = [] \<or> row_spread_bps (last pre) < thr) \<and> run \<noteq> [] \<and>
        (\<forall>r\<in>set run. thr \<le> row_spread_bps r) \<and> row_spread_bps x < thr"
  then show "\<exists>evs_pre evs_rest.
              extract_events thr p pre = Inr evs_pre \<and>
              extract_events thr p rest = Inr evs_rest \<and>
              extract_events thr p (pre @ run @ x # rest) =
                Inr (evs_pre @
                     (if p \<le> row_ts_ms x - row_ts_ms (hd run)
                      then [interval_event run (row_ts_ms x)] else []) @
                     evs_rest)"
    using extract_events_segment by blast
next
  assume "q \<le> 20"
  then show "extract_events 5 q
          [sample a b m M 0 4.9, sample a b m M 10 5.0, sample a b m M 20 5.1,
           sample a b m M 30 4.9]
        = Inr [\<lparr>start_ms = 10, end_ms = 30, duration_ms = 20, peak_bps = Some 5.1,
                min_venue = a, max_venue = b, n_points = None\<rparr>]"
    by (simp add: extract_events_def extract_step_def close_trailing_def close_interval_def
        extractor_init_def sample_def Let_def)
qed

theorem threshold_crossing_witness:
  "extract_events 5 0
     [sample ''A'' ''B'' 100 101 0 1, sample ''A'' ''B'' 100 101 10 5,
      sample ''B'' ''A'' 100 101 20 9, sample ''A'' ''B'' 100 101 35 4,
      sample ''A'' ''B'' 100 101 40 6]
   = Inr [\<lparr>start_ms = 10, end_ms = 35, duration_ms = 25, peak_bps = Some 9,
           min_venue = ''B'', max_venue = ''A'', n_points = None\<rparr>,
          \<lparr>start_ms = 40, end_ms = 40, duration_ms = 0, peak_bps = Some 6,
           min_venue = ''A'', max_venue = ''B'', n_points = None\<rparr>]
   \<and> extract_events 5 20
       [sample ''A'' ''B'' 1 2 0 4.9, sample ''A'' ''B'' 1 2 10 5.0,
        sample ''A'' ''B'' 1 2 20 5.1, sample ''A'' ''B'' 1 2 30 4.9]
     = Inr [\<lparr>start_ms = 10, end_ms = 30, duration_ms = 20, peak_bps = Some 5.1,
             min_venue = ''A'', max_venue = ''B'', n_points = None\<rparr>]"
  using threshold_crossing
    [of 5 0 "[]" "sample ''A'' ''B'' 100 101 0 1" "[sample ''A'' ''B'' 100 101 0 1]"
       "[sample ''A'' ''B'' 100 101 10 5, sample ''B'' ''A'' 100 101 20 9]"
       "sample ''A'' ''B'' 100 101 35 4" "[sample ''A'' ''B'' 100 101 40 6]"
       20 "''A''" "''B''" 1 2]
  by (simp add: extract_events_def extract_step_def close_trailing_def close_interval_def
      extractor_init_def sample_def Let_def interval_event_def peak_row_def better_row_def)

lemma extract_step_filtered:
  assumes "filtered p (events s)" "extract_step thr p s row = Inr s'"
  shows "filtered p (events s')"
  using assms
  by (auto simp: extract_step_def close_interval_def filtered_def Let_def
      split: option.splits if_splits)

lemma extract_loop_filtered:
  assumes "filtered p (events s)" "extract_loop thr p s rows = Inr s'"
  shows "filtered p (events s')"
  using assms
proof (induction rows arbitrary: s)
  case Nil
  then show ?case by simp
next
  case (Cons row rows)
  from Cons.prems(2) obtain s1 where s1: "extract_step thr p s row = Inr s1"
    "extract_loop thr p s1 rows = Inr s'"
    by (auto split: sum.splits)
  from extract_step_filtered[OF Cons.prems(1) s1(1)] have "filtered p (events s1)" .
  from Cons.IH[OF this s1(2)] show ?case .
qed

lemma close_trailing_filtered:
  assumes "filtered p (events s)" "close_trailing p s rows = Inr evs"
  shows "filtered p evs"
  using assms
  by (auto simp: close_trailing_def close_interval_def filtered_def Let_def
      split: option.splits if_splits list.splits)

lemma extract_events_filtered:
  assumes "extract_events thr p rows = Inr evs"
  shows "filtered p evs"
proof -
  from assms obtain s where s: "extract_loop thr p extractor_init rows = Inr s"
    "close_trailing p s rows = Inr evs"
    by (auto simp: extract_events_def split: sum.splits)
  have "filtered p (events extractor_init)"
    by (simp add: filtered_def extractor_init_def)
  from extract_loop_filtered[OF this s(1)] have "filtered p (events s)" .
  from close_trailing_filtered[OF this s(2)] show ?thesis .
qed

text \<open>
  C3. The extractor always returns, and every event it returns, closed inside the stream
  or at its end, has \<open>duration_ms = end_ms - start_ms >= persistence_ms\<close>. An
  interval of smaller duration leaves no record: the events are those of the rows before
  it followed by those of the rows after it.
\<close>

theorem persistence_filter:
  "(\<exists>evs. extract_events thr p rows = Inr evs \<and>
       (\<forall>e\<in>set evs. p \<le> duration_ms e \<and> duration_ms e = end_ms e - start_ms e))
   \<and> ((pre = [] \<or> row_spread_bps (last pre) < thr) \<and> run \<noteq> [] \<and>
        (\<forall>r\<in>set run. thr \<le> row_spread_bps r) \<and> row_spread_bps x < thr \<and>
        row_ts_ms x - row_ts_ms (hd run) < p
        \<longrightarrow> (\<exists>evs_pre evs_rest.
              extract_events thr p pre = Inr evs_pre \<and>
              extract_events thr p rest = Inr evs_rest \<and>
              extract_events thr p (pre @ run @ x # rest) = Inr (evs_pre @ evs_rest)))
   \<and> ((pre = [] \<or> row_spread_bps (last pre) < thr) \<and> run \<noteq> [] \<and>
        (\<forall>r\<in>set run. thr \<le> row_spread_bps r) \<and>
        row_ts_ms (last run) - row_ts_ms (hd run) < p
        \<longrightarrow> extract_events thr p (pre @ run) = extract_events thr p pre)"
proof (intro conjI impI)
  from extract_events_total[of thr p rows] obtain evs where
    evs: "extract_events thr p rows = Inr evs" by blast
  from extract_events_filtered[OF this] evs
  show "\<exists>evs. extract_events thr p rows = Inr evs \<and>
       (\<forall>e\<in>set evs. p \<le> duration_ms e \<and> duration_ms e = end_ms e - start_ms e)"
    by (auto simp: filtered_def)
next
  assume a: "(pre = [] \<or> row_spread_bps (last pre) < thr) \<and> run \<noteq> [] \<and>
        (\<forall>r\<in>set run. thr \<le> row_spread_bps r) \<and> row_spread_bps x < thr \<and>
        row_ts_ms x - row_ts_ms (hd run) < p"
  then have "\<exists>evs_pre evs_rest.
     extract_events thr p pre = Inr evs_pre \<and> extract_events thr p rest = Inr evs_rest \<and>
     extract_events thr p (pre @ run @ x # rest) =
       Inr (evs_pre @
            (if p \<le> row_ts_ms x - row_ts_ms (hd run)
             then [interval_event run (row_ts_ms x)] else []) @
            evs_rest)"
    using extract_events_segment by blast
  with a show "\<exists>evs_pre evs_rest.
              extract_events thr p pre = Inr evs_pre \<and>
              extract_events thr p rest = Inr evs_rest \<and>
              extract_events thr p (pre @ run @ x # rest) = Inr (evs_pre @ evs_rest)"
    by auto
next
  assume a: "(pre = [] \<or> row_spread_bps (last pre) < thr) \<and> run \<noteq> [] \<and>
        (\<forall>r\<in>set run. thr \<le> row_spread_bps r) \<and>
        row_ts_ms (last run) - row_ts_ms (hd run) < p"
  then have "\<exists>evs_pre.
     extract_events thr p pre = Inr evs_pre \<and>
     extract_events thr p (pre @ run) =
       Inr (evs_pre @
            (if p \<le> row_ts_ms (last run) - row_ts_ms (hd run)
             then [interval_event run (row_ts_ms (last run))] else []))"
    using extract_events_trailing by blast
  with a show "extract_events thr p (pre @ run) = extract_events thr p pre"
    by auto
qed

theorem persistence_filter_witness:
  "extract_events 5 50
     [sample ''A'' ''B'' 100 101 0 1, sample ''A'' ''B'' 100 101 10 7,
      sample ''A'' ''B'' 100 101 20 4, sample ''A'' ''B'' 100 101 30 8,
      sample ''B'' ''A'' 100 101 90 9]
   = Inr [\<lparr>start_ms = 30, end_ms = 90, duration_ms = 60, peak_bps = Some 9,
           min_venue = ''B'', max_venue = ''A'', n_points = None\<rparr>]"
  using persistence_filter
    [of 5 50 "[sample ''A'' ''B'' 100 101 0 1, sample ''A'' ''B'' 100 101 10 7,
      sample ''A'' ''B'' 100 101 20 4, sample ''A'' ''B'' 100 101 30 8,
      sample ''B'' ''A'' 100 101 90 9]"
      "[sample ''A'' ''B'' 100 101 0 1]" "[sample ''A'' ''B'' 100 101 10 7]"
      "sample ''A'' ''B'' 100 101 20 4"
      "[sample ''A'' ''B'' 100 101 30 8, sample ''B'' ''A'' 100 101 90 9]"]
  by (simp add: extract_events_def extract_step_def close_trailing_def close_interval_def
      extractor_init_def sample_def Let_def)

lemma ordered_upto_init: "ordered_upto b extractor_init"
  by (simp add: ordered_upto_def ready_def extractor_init_def)

lemma extract_step_ordered:
  assumes "ordered_upto b s" "b \<le> row_ts_ms row"
  shows "\<exists>s'. extract_step thr p s row = Inr s' \<and> ordered_upto (row_ts_ms row) s'"
proof (cases "thr \<le> row_spread_bps row")
  case True
  with assms show ?thesis
    by (auto simp: extract_step_def ordered_upto_def ready_def Let_def split: option.splits)
next
  case False
  show ?thesis
  proof (cases "in_event s")
    case outside: False
    with False assms show ?thesis
      by (auto simp: extract_step_def ordered_upto_def ready_def Let_def)
  next
    case inside: True
    with assms(1) obtain st pv where st: "start s = Some st" "st \<le> b"
      "\<forall>e\<in>set (events s). end_ms e \<le> st" "peak_v s = Some pv"
      by (auto simp: ordered_upto_def ready_def)
    from assms(1) have ev: "\<forall>e\<in>set (events s). start_ms e \<le> end_ms e \<and> end_ms e \<le> b"
      "sorted_wrt (\<lambda>e1 e2. end_ms e1 \<le> start_ms e2) (events s)"
      by (simp_all add: ordered_upto_def)
    from False inside st ev assms(2) show ?thesis
      by (auto simp: extract_step_def close_interval_def ordered_upto_def ready_def Let_def
          sorted_wrt_append)
  qed
qed

lemma extract_loop_ordered:
  assumes "ordered_upto b s" "sorted (map row_ts_ms rows)" "\<forall>r\<in>set rows. b \<le> row_ts_ms r"
  shows "\<exists>s'. extract_loop thr p s rows = Inr s' \<and>
           ordered_upto (if rows = [] then b else row_ts_ms (last rows)) s'"
  using assms
proof (induction rows arbitrary: s b)
  case Nil
  then show ?case by simp
next
  case (Cons row rows)
  from Cons.prems(3) have "b \<le> row_ts_ms row" by simp
  from extract_step_ordered[OF Cons.prems(1) this, of thr p] obtain s1 where
    s1: "extract_step thr p s row = Inr s1" "ordered_upto (row_ts_ms row) s1" by blast
  from Cons.prems(2) have srt: "sorted (map row_ts_ms rows)"
    "\<forall>r\<in>set rows. row_ts_ms row \<le> row_ts_ms r" by simp_all
  from Cons.IH[OF s1(2) srt] obtain s' where
    "extract_loop thr p s1 rows = Inr s'"
    "ordered_upto (if rows = [] then row_ts_ms row else row_ts_ms (last rows)) s'" by blast
  with s1(1) show ?case by auto
qed

lemma close_trailing_ordered:
  assumes "ordered_upto (row_ts_ms (last rows)) s" "rows \<noteq> []"
  shows "\<exists>evs. close_trailing p s rows = Inr evs \<and>
           (\<forall>e\<in>set evs. start_ms e \<le> end_ms e) \<and>
           sorted_wrt (\<lambda>e1 e2. end_ms e1 \<le> start_ms e2) evs"
proof (cases "in_event s")
  case False
  with assms(1) show ?thesis
    by (auto simp: close_trailing_outside ordered_upto_def)
next
  case True
  with assms(1) obtain st pv where st: "start s = Some st" "st \<le> row_ts_ms (last rows)"
    "\<forall>e\<in>set (events s). end_ms e \<le> st" "peak_v s = Some pv"
    by (auto simp: ordered_upto_def ready_def)
  from assms(1) have ev: "\<forall>e\<in>set (events s). start_ms e \<le> end_ms e"
    "sorted_wrt (\<lambda>e1 e2. end_ms e1 \<le> start_ms e2) (events s)"
    by (simp_all add: ordered_upto_def)
  from True assms(2) st ev show ?thesis
    by (auto simp: close_trailing_inside close_interval_def Let_def sorted_wrt_append)
qed

text \<open>
  C10. When the timestamps of the metric rows do not decrease, every event has
  \<open>start_ms <= end_ms\<close> and every event starts at or after the end of the event
  emitted before it (and of every earlier one).
\<close>

theorem events_ordered_disjoint:
  assumes "sorted (map row_ts_ms rows)"
  shows "\<exists>evs. extract_events thr p rows = Inr evs \<and>
           (\<forall>e\<in>set evs. start_ms e \<le> end_ms e) \<and>
           (\<forall>i. Suc i < length evs \<longrightarrow> end_ms (evs ! i) \<le> start_ms (evs ! Suc i)) \<and>
           sorted_wrt (\<lambda>e1 e2. end_ms e1 \<le> start_ms e2) evs"
proof (cases "rows = []")
  case True
  then show ?thesis
    by (simp add: extract_events_def close_trailing_def extractor_init_def)
next
  case False
  have "\<forall>r\<in>set rows. row_ts_ms (hd rows) \<le> row_ts_ms r"
    using assms False by (cases rows) auto
  from extract_loop_ordered[OF ordered_upto_init assms this, of thr p] False obtain s where
    s: "extract_loop thr p extractor_init rows = Inr s"
    "ordered_upto (row_ts_ms (last rows)) s" by auto
  from close_trailing_ordered[OF s(2) False, of p] obtain evs where
    evs: "close_trailing p s rows = Inr evs" "\<forall>e\<in>set evs. start_ms e \<le> end_ms e"
    "sorted_wrt (\<lambda>e1 e2. end_ms e1 \<le> start_ms e2) evs" by blast
  from evs(3) have "\<forall>i. Suc i < length evs \<longrightarrow> end_ms (evs ! i) \<le> start_ms (evs ! Suc i)"
    by (simp add: sorted_wrt_iff_nth_less)
  with s(1) evs show ?thesis
    by (simp add: extract_events_def)
qed

theorem events_ordered_disjoint_witness:
  "extract_events 5 0
     [sample ''A'' ''B'' 100 101 0 1, sample ''A'' ''B'' 100 101 10 5,
      sample ''B'' ''A'' 100 101 20 9, sample ''A'' ''B'' 100 101 35 4,
      sample ''A'' ''B'' 100 101 35 6, sample ''A'' ''B'' 100 101 50 7]
   = Inr [\<lparr>start_ms = 10, end_ms = 35, duration_ms = 25, peak_bps = Some 9,
           min_venue = ''B'', max_venue = ''A'', n_points = None\<rparr>,
          \<lparr>start_ms = 35, end_ms = 50, duration_ms = 15, peak_bps = Some 7,
           min_venue = ''A'', max_venue = ''B'', n_points = None\<rparr>]"
  using events_ordered_disjoint
    [of "[sample ''A'' ''B'' 100 101 0 1, sample ''A'' ''B'' 100 101 10 5,
      sample ''B'' ''A'' 100 101 20 9, sample ''A'' ''B'' 100 101 35 4,
      sample ''A'' ''B'' 100 101 35 6, sample ''A'' ''B'' 100 101 50 7]" 5 0]
  by (simp add: extract_events_def extract_step_def close_trailing_def close_interval_def
      extractor_init_def sample_def Let_def)

section \<open>The cost model\<close>



lemma float_of_int_small: "\<bar>i\<bar> \<le> 2 ^ 53 \<Longrightarrow> float_of_int i = Inr (of_int i)"
  unfolding float_of_int_def Let_def by (rule if_P)








text \<open>
  C5. A cost component that is not a number makes \<open>total_cost_bps_from_cfg\<close> raise:
  with \<open>costs_bps = {fee_bps: null, slippage_bps: 3}\<close> the call \<open>float(None)\<close>
  raises \<open>TypeError\<close>, whatever the reading of strings is. The function has no handler
  around the conversion, unlike the conversions of \<open>latency_ms\<close>, of the carried
  \<open>spread_bps\<close> and of the mid in \<open>nearest_mid\<close>.
\<close>

theorem cost_component_null_raises:
  "total_cost_bps_from_cfg float_of_str
     [(''costs_bps'', YDict [(''fee_bps'', YNull), (''slippage_bps'', YInt 3)])] = Inl TypeError"
  by (simp add: total_cost_bps_from_cfg_def dict_get_def py_or_def float_of_int_small)

section \<open>The backtest\<close>

lemma nearest_mid_uncovered: "\<not> covered ticks v \<Longrightarrow> nearest_mid ticks ts v = None"
proof -
  assume "\<not> covered ticks v"
  then have "filter (\<lambda>t. venue t = v) ticks = []"
    by (auto simp: covered_def filter_empty_conv)
  then show ?thesis by (simp add: nearest_mid_def)
qed

lemma length_map_filter_less:
  assumes "x \<in> set xs" "f x = None"
  shows "length (List.map_filter f xs) < length xs"
proof -
  have "length (filter (\<lambda>x. f x \<noteq> None) xs) < length xs"
    by (rule length_filter_less[OF assms(1)]) (simp add: assms(2))
  then show ?thesis by (simp add: List.map_filter_def)
qed

lemma backtest_event_uncovered:
  assumes "carried_spread fos evs r = None" "\<not> covered ticks (in_min_venue r)"
  shows "backtest_event fos c lat ticks evs r = None"
  using assms by (simp add: backtest_event_def nearest_mid_uncovered)

lemmas bt_eval = backtest_main_def backtest_event_def carried_spread_def nearest_mid_def
  clean_ticks_def total_cost_bps_from_cfg_def latency_from_cfg_def dict_get_def py_or_def
  required_cols_def Let_def covered_def float_of_int_small

text \<open>
  C6, as amended. An event that carries no usable \<open>spread_bps\<close> (the events table has
  no such column, or \<open>float\<close> of the cell raises) and whose long venue and short venue
  both have no tick in the cleaned tick store yields no trade, and every run that returns
  has fewer trades than events.
\<close>

theorem uncovered_event_dropped:
  assumes "r \<in> set (ev_rows evs)" "carried_spread fos evs r = None"
    "\<not> covered (clean_ticks raw) (in_min_venue r)"
    "\<not> covered (clean_ticks raw) (in_max_venue r)"
  shows "backtest_event fos c lat (clean_ticks raw) evs r = None \<and>
         (\<forall>out. backtest_main fos ios cfg (Some evs) (Some raw) = Inr out \<longrightarrow>
                length (trades_of out) < length (ev_rows evs))"
proof (intro conjI allI impI)
  show "backtest_event fos c lat (clean_ticks raw) evs r = None"
    by (rule backtest_event_uncovered[OF assms(2,3)])
next
  fix out
  assume run: "backtest_main fos ios cfg (Some evs) (Some raw) = Inr out"
  from assms(1) have ne: "ev_rows evs \<noteq> []" "0 < length (ev_rows evs)" by auto
  show "length (trades_of out) < length (ev_rows evs)"
  proof (cases out)
    case (Saved trades)
    with run ne obtain c' where
      "trades = List.map_filter
                  (backtest_event fos c' (latency_from_cfg ios cfg) (clean_ticks raw) evs)
                  (ev_rows evs)"
      by (auto simp: backtest_main_def Let_def split: if_splits sum.splits)
    moreover have "backtest_event fos c' (latency_from_cfg ios cfg) (clean_ticks raw) evs r = None"
      by (rule backtest_event_uncovered[OF assms(2,3)])
    ultimately show ?thesis
      using length_map_filter_less[OF assms(1)] Saved by simp
  qed (use ne in simp_all)
qed

theorem uncovered_event_dropped_witness:
  "backtest_event Map.empty 0 0
     (clean_ticks [\<lparr>raw_ts_ms = Some 0, raw_venue = Some ''A'', raw_mid = Some 100\<rparr>,
                   \<lparr>raw_ts_ms = Some 0, raw_venue = Some ''B'', raw_mid = Some 101\<rparr>])
     \<lparr>columns = [''start_ms'', ''end_ms'', ''min_venue'', ''max_venue''],
      ev_rows = [\<lparr>in_start_ms = 0, in_end_ms = 10, in_min_venue = ''A'',
                  in_max_venue = ''B'', in_spread_bps = Num 0\<rparr>,
                 \<lparr>in_start_ms = 20, in_end_ms = 30, in_min_venue = ''X'',
                  in_max_venue = ''Y'', in_spread_bps = Num 0\<rparr>]\<rparr>
     \<lparr>in_start_ms = 20, in_end_ms = 30, in_min_venue = ''X'', in_max_venue = ''Y'',
      in_spread_bps = Num 0\<rparr>
   = None
   \<and> backtest_main Map.empty Map.empty []
       (Some \<lparr>columns = [''start_ms'', ''end_ms'', ''min_venue'', ''max_venue''],
              ev_rows = [\<lparr>in_start_ms = 0, in_end_ms = 10, in_min_venue = ''A'',
                          in_max_venue = ''B'', in_spread_bps = Num 0\<rparr>,
                         \<lparr>in_start_ms = 20, in_end_ms = 30, in_min_venue = ''X'',
                          in_max_venue = ''Y'', in_spread_bps = Num 0\<rparr>]\<rparr>)
       (Some [\<lparr>raw_ts_ms = Some 0, raw_venue = Some ''A'', raw_mid = Some 100\<rparr>,
              \<lparr>raw_ts_ms = Some 0, raw_venue = Some ''B'', raw_mid = Some 101\<rparr>])
     = Inr (Saved
         [\<lparr>tr_start_ms = 0, tr_end_ms = 10, tr_duration_ms = 10, tr_entry_ts = 0,
           tr_exit_ts = 10, tr_long_venue = ''A'', tr_short_venue = ''B'',
           tr_long_entry_mid = Some 100, tr_short_entry_mid = Some 101,
           tr_long_exit_mid = Some 100, tr_short_exit_mid = Some 101,
           tr_spread_bps = 20000 / 201, tr_pnl_bps = 20000 / 201,
           tr_total_cost_bps = 0, tr_pnl_net_bps = 20000 / 201\<rparr>])"
proof -
  let ?raw = "[\<lparr>raw_ts_ms = Some 0, raw_venue = Some ''A'', raw_mid = Some 100\<rparr>,
               \<lparr>raw_ts_ms = Some 0, raw_venue = Some ''B'', raw_mid = Some (101::real)\<rparr>]"
  let ?r = "\<lparr>in_start_ms = 20, in_end_ms = 30, in_min_venue = ''X'', in_max_venue = ''Y'',
             in_spread_bps = Num 0\<rparr>"
  let ?evs = "\<lparr>columns = [''start_ms'', ''end_ms'', ''min_venue'', ''max_venue''],
      ev_rows = [\<lparr>in_start_ms = 0, in_end_ms = 10, in_min_venue = ''A'',
                  in_max_venue = ''B'', in_spread_bps = Num 0\<rparr>, ?r]\<rparr>"
  have h1: "?r \<in> set (ev_rows ?evs)" by simp
  have h2: "carried_spread Map.empty ?evs ?r = None" by (simp add: carried_spread_def)
  have h3: "\<not> covered (clean_ticks ?raw) (in_min_venue ?r)"
    by (simp add: covered_def clean_ticks_def)
  have h4: "\<not> covered (clean_ticks ?raw) (in_max_venue ?r)"
    by (simp add: covered_def clean_ticks_def)
  from uncovered_event_dropped[OF h1 h2 h3 h4, of 0 0 Map.empty "[]"]
  have dropped: "backtest_event Map.empty 0 0 (clean_ticks ?raw) ?evs ?r = None" by blast
  have run: "backtest_main Map.empty Map.empty [] (Some ?evs) (Some ?raw)
     = Inr (Saved
         [\<lparr>tr_start_ms = 0, tr_end_ms = 10, tr_duration_ms = 10, tr_entry_ts = 0,
           tr_exit_ts = 10, tr_long_venue = ''A'', tr_short_venue = ''B'',
           tr_long_entry_mid = Some 100, tr_short_entry_mid = Some 101,
           tr_long_exit_mid = Some 100, tr_short_exit_mid = Some 101,
           tr_spread_bps = 20000 / 201, tr_pnl_bps = 20000 / 201,
           tr_total_cost_bps = 0, tr_pnl_net_bps = 20000 / 201\<rparr>])"
    by (simp add: bt_eval)
  from dropped run show ?thesis by (rule conjI)
qed

text \<open>
  C6 as stated fails when the events table carries \<open>spread_bps\<close>: the carried value is
  preferred, so an event whose two venues have no tick still yields a trade, with unresolved
  mids, and the trade count equals the event count.
\<close>

theorem carried_spread_keeps_uncovered_event:
  "\<not> covered
       (clean_ticks [\<lparr>raw_ts_ms = Some 0, raw_venue = Some ''A'', raw_mid = Some 100\<rparr>]) ''X''
   \<and> \<not> covered
       (clean_ticks [\<lparr>raw_ts_ms = Some 0, raw_venue = Some ''A'', raw_mid = Some 100\<rparr>]) ''Y''
   \<and> backtest_main Map.empty Map.empty []
       (Some \<lparr>columns = [''start_ms'', ''end_ms'', ''min_venue'', ''max_venue'', ''spread_bps''],
              ev_rows = [\<lparr>in_start_ms = 0, in_end_ms = 10, in_min_venue = ''X'',
                          in_max_venue = ''Y'', in_spread_bps = Num 12\<rparr>]\<rparr>)
       (Some [\<lparr>raw_ts_ms = Some 0, raw_venue = Some ''A'', raw_mid = Some 100\<rparr>])
     = Inr (Saved
         [\<lparr>tr_start_ms = 0, tr_end_ms = 10, tr_duration_ms = 10, tr_entry_ts = 0,
           tr_exit_ts = 10, tr_long_venue = ''X'', tr_short_venue = ''Y'',
           tr_long_entry_mid = None, tr_short_entry_mid = None, tr_long_exit_mid = None,
           tr_short_exit_mid = None, tr_spread_bps = 12, tr_pnl_bps = 12,
           tr_total_cost_bps = 0, tr_pnl_net_bps = 12\<rparr>])"
  by (simp add: bt_eval)

text \<open>
  C9, as amended. Every trade written by the backtest has \<open>pnl_bps = spread_bps\<close> and
  \<open>pnl_net_bps = pnl_bps - total_cost_bps\<close>, with \<open>total_cost_bps\<close> the value of
  the cost model. The gross PnL is the carried \<open>spread_bps\<close> when the event has one,
  whatever the ticks are; otherwise it is rebuilt from the two entry mids as
  \<open>(short_entry - long_entry) / avg * 10000\<close>. The exit mids are in neither. An event
  with \<open>spread_bps = 24\<close> and a total cost of 24 has \<open>pnl_net_bps = 0\<close>.
\<close>

theorem pnl_from_spread_and_cost:
  "(\<forall>trades. backtest_main fos ios cfg events_file ticks_db = Inr (Saved trades) \<longrightarrow>
      (\<exists>c. total_cost_bps_from_cfg fos cfg = Inr c \<and>
           (\<forall>t\<in>set trades. tr_pnl_bps t = tr_spread_bps t \<and> tr_total_cost_bps t = c \<and>
                            tr_pnl_net_bps t = tr_pnl_bps t - c)))
   \<and> (\<forall>t. backtest_event fos cost lat ticks evs r = Some t \<longrightarrow>
          tr_pnl_bps t = tr_spread_bps t \<and> tr_pnl_net_bps t = tr_pnl_bps t - cost \<and>
          (case carried_spread fos evs r of
             Some x \<Rightarrow> tr_pnl_bps t = x
           | None \<Rightarrow>
               (\<exists>le se. nearest_mid ticks (in_start_ms r + lat) (in_min_venue r) = Some le \<and>
                        nearest_mid ticks (in_start_ms r + lat) (in_max_venue r) = Some se \<and>
                        tr_pnl_bps t = (se - le) / ((le + se) / 2) * 10000)))
   \<and> (carried_spread fos evs r = Some 24 \<longrightarrow>
        (\<exists>t. backtest_event fos 24 lat ticks evs r = Some t \<and> tr_spread_bps t = 24 \<and>
             tr_total_cost_bps t = 24 \<and> tr_pnl_net_bps t = 0))"
proof -
  have ev: "tr_pnl_bps t = tr_spread_bps t \<and> tr_total_cost_bps t = c \<and>
            tr_pnl_net_bps t = tr_pnl_bps t - c \<and>
            (case carried_spread fos evs r of
               Some x \<Rightarrow> tr_pnl_bps t = x
             | None \<Rightarrow>
                 (\<exists>le se. nearest_mid tk (in_start_ms r + l) (in_min_venue r) = Some le \<and>
                          nearest_mid tk (in_start_ms r + l) (in_max_venue r) = Some se \<and>
                          tr_pnl_bps t = (se - le) / ((le + se) / 2) * 10000))"
    if "backtest_event fos c l tk evs r = Some t" for c l tk evs r t
    using that
    by (auto simp: backtest_event_def Let_def split: option.splits if_splits)
  have a: "\<forall>trades. backtest_main fos ios cfg events_file ticks_db = Inr (Saved trades) \<longrightarrow>
      (\<exists>c. total_cost_bps_from_cfg fos cfg = Inr c \<and>
           (\<forall>t\<in>set trades. tr_pnl_bps t = tr_spread_bps t \<and> tr_total_cost_bps t = c \<and>
                            tr_pnl_net_bps t = tr_pnl_bps t - c))"
  proof (intro allI impI)
    fix trades
    assume "backtest_main fos ios cfg events_file ticks_db = Inr (Saved trades)"
    then obtain c evs' tk where c: "total_cost_bps_from_cfg fos cfg = Inr c"
      "trades = List.map_filter (backtest_event fos c (latency_from_cfg ios cfg) tk evs')
                  (ev_rows evs')"
      by (auto simp: backtest_main_def Let_def split: if_splits sum.splits option.splits)
    have "\<forall>t\<in>set trades. tr_pnl_bps t = tr_spread_bps t \<and> tr_total_cost_bps t = c \<and>
                            tr_pnl_net_bps t = tr_pnl_bps t - c"
    proof
      fix t assume "t \<in> set trades"
      with c(2) obtain r' where
        "backtest_event fos c (latency_from_cfg ios cfg) tk evs' r' = Some t"
        by (auto simp: List.map_filter_def)
      from ev[OF this] show "tr_pnl_bps t = tr_spread_bps t \<and> tr_total_cost_bps t = c \<and>
                            tr_pnl_net_bps t = tr_pnl_bps t - c" by simp
    qed
    with c(1) show "\<exists>c. total_cost_bps_from_cfg fos cfg = Inr c \<and>
           (\<forall>t\<in>set trades. tr_pnl_bps t = tr_spread_bps t \<and> tr_total_cost_bps t = c \<and>
                            tr_pnl_net_bps t = tr_pnl_bps t - c)" by blast
  qed
  have b: "\<forall>t. backtest_event fos cost lat ticks evs r = Some t \<longrightarrow>
          tr_pnl_bps t = tr_spread_bps t \<and> tr_pnl_net_bps t = tr_pnl_bps t - cost \<and>
          (case carried_spread fos evs r of
             Some x \<Rightarrow> tr_pnl_bps t = x
           | None \<Rightarrow>
               (\<exists>le se. nearest_mid ticks (in_start_ms r + lat) (in_min_venue r) = Some le \<and>
                        nearest_mid ticks (in_start_ms r + lat) (in_max_venue r) = Some se \<and>
                        tr_pnl_bps t = (se - le) / ((le + se) / 2) * 10000))"
    using ev by blast
  have c: "carried_spread fos evs r = Some 24 \<longrightarrow>
        (\<exists>t. backtest_event fos 24 lat ticks evs r = Some t \<and> tr_spread_bps t = 24 \<and>
             tr_total_cost_bps t = 24 \<and> tr_pnl_net_bps t = 0)"
    by (simp add: backtest_event_def Let_def)
  show ?thesis by (intro conjI a b c)
qed

theorem pnl_from_spread_and_cost_witness:
  "backtest_main Map.empty Map.empty
     [(''costs_bps'',
       YDict [(''fee'', YInt 2), (''half_spread'', YInt 1), (''slippage'', YInt 3)]),
      (''latency_ms'', YInt 5)]
     (Some \<lparr>columns = [''start_ms'', ''end_ms'', ''min_venue'', ''max_venue'', ''spread_bps''],
            ev_rows = [\<lparr>in_start_ms = 0, in_end_ms = 10, in_min_venue = ''A'',
                        in_max_venue = ''B'', in_spread_bps = Num 24\<rparr>]\<rparr>)
     (Some [\<lparr>raw_ts_ms = Some 0, raw_venue = Some ''A'', raw_mid = Some 100\<rparr>,
            \<lparr>raw_ts_ms = Some 7, raw_venue = Some ''B'', raw_mid = Some 101\<rparr>])
   = Inr (Saved
       [\<lparr>tr_start_ms = 0, tr_end_ms = 10, tr_duration_ms = 10, tr_entry_ts = 5,
         tr_exit_ts = 15, tr_long_venue = ''A'', tr_short_venue = ''B'',
         tr_long_entry_mid = Some 100, tr_short_entry_mid = Some 101,
         tr_long_exit_mid = Some 100, tr_short_exit_mid = Some 101,
         tr_spread_bps = 24, tr_pnl_bps = 24, tr_total_cost_bps = 24, tr_pnl_net_bps = 0\<rparr>])
   \<and> total_cost_bps_from_cfg Map.empty
       [(''costs_bps'',
         YDict [(''fee'', YInt 2), (''half_spread'', YInt 1), (''slippage'', YInt 3)]),
        (''latency_ms'', YInt 5)] = Inr 24"
proof -
  let ?cfg = "[(''costs_bps'',
       YDict [(''fee'', YInt 2), (''half_spread'', YInt 1), (''slippage'', YInt 3)]),
      (''latency_ms'', YInt 5)]"
  let ?evs = "\<lparr>columns = [''start_ms'', ''end_ms'', ''min_venue'', ''max_venue'', ''spread_bps''],
            ev_rows = [\<lparr>in_start_ms = 0, in_end_ms = 10, in_min_venue = ''A'',
                        in_max_venue = ''B'', in_spread_bps = Num 24\<rparr>]\<rparr>"
  let ?raw = "[\<lparr>raw_ts_ms = Some 0, raw_venue = Some ''A'', raw_mid = Some 100\<rparr>,
            \<lparr>raw_ts_ms = Some 7, raw_venue = Some ''B'', raw_mid = Some (101::real)\<rparr>]"
  let ?t = "\<lparr>tr_start_ms = 0, tr_end_ms = 10, tr_duration_ms = 10, tr_entry_ts = 5,
         tr_exit_ts = 15, tr_long_venue = ''A'', tr_short_venue = ''B'',
         tr_long_entry_mid = Some 100, tr_short_entry_mid = Some 101,
         tr_long_exit_mid = Some 100, tr_short_exit_mid = Some 101,
         tr_spread_bps = 24, tr_pnl_bps = 24, tr_total_cost_bps = 24, tr_pnl_net_bps = 0::real\<rparr>"
  have run: "backtest_main Map.empty Map.empty ?cfg (Some ?evs) (Some ?raw) = Inr (Saved [?t])"
    by (simp add: bt_eval)
  from pnl_from_spread_and_cost[of Map.empty Map.empty ?cfg "Some ?evs" "Some ?raw"] run
  obtain c where "total_cost_bps_from_cfg Map.empty ?cfg = Inr c"
    "\<forall>t\<in>set [?t]. tr_pnl_bps t = tr_spread_bps t \<and> tr_total_cost_bps t = c \<and>
                    tr_pnl_net_bps t = tr_pnl_bps t - c"
    by blast
  then have "total_cost_bps_from_cfg Map.empty ?cfg = Inr 24" by simp
  with run show ?thesis by (rule conjI)
qed

text \<open>
  C9 as stated says that the entry mids do not feed into \<open>pnl_bps\<close>. For an events
  table without a \<open>spread_bps\<close> column, which is what \<open>detect_events.py\<close> writes,
  the same event has a different \<open>pnl_bps\<close> when only the entry mid of the short venue
  changes.
\<close>

theorem entry_mids_feed_rebuilt_pnl:
  "backtest_main Map.empty Map.empty []
     (Some \<lparr>columns = [''start_ms'', ''end_ms'', ''min_venue'', ''max_venue''],
            ev_rows = [\<lparr>in_start_ms = 0, in_end_ms = 10, in_min_venue = ''A'',
                        in_max_venue = ''B'', in_spread_bps = Num 0\<rparr>]\<rparr>)
     (Some [\<lparr>raw_ts_ms = Some 0, raw_venue = Some ''A'', raw_mid = Some 100\<rparr>,
            \<lparr>raw_ts_ms = Some 0, raw_venue = Some ''B'', raw_mid = Some 101\<rparr>])
   = Inr (Saved
       [\<lparr>tr_start_ms = 0, tr_end_ms = 10, tr_duration_ms = 10, tr_entry_ts = 0,
         tr_exit_ts = 10, tr_long_venue = ''A'', tr_short_venue = ''B'',
         tr_long_entry_mid = Some 100, tr_short_entry_mid = Some 101,
         tr_long_exit_mid = Some 100, tr_short_exit_mid = Some 101,
         tr_spread_bps = 20000 / 201, tr_pnl_bps = 20000 / 201,
         tr_total_cost_bps = 0, tr_pnl_net_bps = 20000 / 201\<rparr>])
   \<and> backtest_main Map.empty Map.empty []
     (Some \<lparr>columns = [''start_ms'', ''end_ms'', ''min_venue'', ''max_venue''],
            ev_rows = [\<lparr>in_start_ms = 0, in_end_ms = 10, in_min_venue = ''A'',
                        in_max_venue = ''B'', in_spread_bps = Num 0\<rparr>]\<rparr>)
     (Some [\<lparr>raw_ts_ms = Some 0, raw_venue = Some ''A'', raw_mid = Some 100\<rparr>,
            \<lparr>raw_ts_ms = Some 0, raw_venue = Some ''B'', raw_mid = Some 102\<rparr>])
   = Inr (Saved
       [\<lparr>tr_start_ms = 0, tr_end_ms = 10, tr_duration_ms = 10, tr_entry_ts = 0,
         tr_exit_ts = 10, tr_long_venue = ''A'', tr_short_venue = ''B'',
         tr_long_entry_mid = Some 100, tr_short_entry_mid = Some 102,
         tr_long_exit_mid = Some 100, tr_short_exit_mid = Some 102,
         tr_spread_bps = 20000 / 101, tr_pnl_bps = 20000 / 101,
         tr_total_cost_bps = 0, tr_pnl_net_bps = 20000 / 101\<rparr>])"
  by (simp add: bt_eval)

end
